theory Spec2Isabelle
  imports Main "HOL-Library.Word"
begin

section \<open>JavaScript strings\<close>

text \<open>
  A JavaScript string is a sequence of UTF-16 code units; \<open>s.length\<close> counts code units
  and \<open>s[i]\<close> reads one of them. The curly quotation marks the layout engine looks for
  (U+201C, U+201D, U+2018, U+2019) are one code unit each.
\<close>

type_synonym jschar = "16 word"
type_synonym jsstring = "jschar list"

definition ascii :: "string \<Rightarrow> jsstring" where
  \<comment> \<open>an ASCII literal as a JavaScript string\<close>
  "ascii s = map of_char s"

definition SP :: jschar where
  \<comment> \<open>\<open>' '\<close>\<close>
  "SP = 0x20"

definition LF :: jschar where
  \<comment> \<open>\<open>'\n'\<close>\<close>
  "LF = 0x0A"

definition isSpace :: "jschar \<Rightarrow> bool" where
  \<comment> \<open>the regular-expression class \<open>\s\<close>: white space and line terminators\<close>
  "isSpace c \<longleftrightarrow>
     c \<in> set [0x09, 0x0A, 0x0B, 0x0C, 0x0D, 0x20, 0xA0, 0x1680,
               0x2028, 0x2029, 0x202F, 0x205F, 0x3000, 0xFEFF]
     \<or> (0x2000 \<le> c \<and> c \<le> 0x200A)"

definition charAt :: "jsstring \<Rightarrow> nat \<Rightarrow> jschar option" where
  \<comment> \<open>\<open>s[i]\<close>: \<open>undefined\<close> (here \<open>None\<close>) out of range, never an exception\<close>
  "charAt s i = (if i < length s then Some (s ! i) else None)"

definition arrayIncludes :: "jschar list \<Rightarrow> jschar option \<Rightarrow> bool" where
  \<comment> \<open>\<open>Array.prototype.includes\<close> on an array of one-character strings; \<open>undefined\<close> is in none\<close>
  "arrayIncludes xs v = (case v of None \<Rightarrow> False | Some c \<Rightarrow> c \<in> set xs)"

section \<open>Constants of the layout engine\<close>

definition GRID_COLS :: nat where
  "GRID_COLS = 10"

definition PUNCTUATION :: "jschar list" where
  \<comment> \<open>\<open>['.', ',', '!', '?']\<close>\<close>
  "PUNCTUATION = [0x2E, 0x2C, 0x21, 0x3F]"

definition OPEN_SMART_QUOTES :: "jschar list" where
  \<comment> \<open>the class \<open>[\<dots>]\<close> of the third replacement: U+201C and U+2018\<close>
  "OPEN_SMART_QUOTES = [0x201C, 0x2018]"

definition CLOSE_SMART_QUOTES :: "jschar list" where
  \<comment> \<open>the class \<open>[\<dots>]\<close> of the fourth replacement: U+201D and U+2019\<close>
  "CLOSE_SMART_QUOTES = [0x201D, 0x2019]"

definition FORBIDDEN_START_CHARS :: "jschar list" where
  \<comment> \<open>\<open>[...PUNCTUATION, U+201D, U+2019, ')']\<close>\<close>
  "FORBIDDEN_START_CHARS = PUNCTUATION @ [0x201D, 0x2019, 0x29]"

section \<open>The text normalizer\<close>

definition replaceNewlines :: "jsstring \<Rightarrow> jsstring" where
  \<comment> \<open>\<open>.replace(/\n/g, ' ')\<close>\<close>
  "replaceNewlines s = map (\<lambda>c. if c = LF then SP else c) s"

text \<open>
  \<open>.replace(/([cls])\s+/g, '$1')\<close>: scanning from the left, a character of the class
  followed by at least one white-space character is kept and the whole run of white space
  after it (the quantifier is greedy) is removed; the scan goes on after the run.
\<close>

function removeSpaceAfter :: "jschar list \<Rightarrow> jsstring \<Rightarrow> jsstring" where
  "removeSpaceAfter cls [] = []"
| "removeSpaceAfter cls (c # cs) =
     (if c \<in> set cls \<and> (case cs of [] \<Rightarrow> False | d # _ \<Rightarrow> isSpace d)
      then c # removeSpaceAfter cls (dropWhile isSpace cs)
      else c # removeSpaceAfter cls cs)"
  by pat_completeness auto
termination
  by (relation "measure (\<lambda>(cls, s). length s)")
     (auto simp: less_Suc_eq_le length_dropWhile_le)

text \<open>
  \<open>.replace(/\s+([cls])/g, '$1')\<close>: a match starts at a white-space character when the
  maximal run of white space from there is followed by a character of the class
  (backtracking into the run cannot help, a white-space character is not in the class);
  the run is removed and the character kept. Otherwise the character is copied and the
  scan moves one position on.
\<close>

function removeSpaceBefore :: "jschar list \<Rightarrow> jsstring \<Rightarrow> jsstring" where
  "removeSpaceBefore cls [] = []"
| "removeSpaceBefore cls (c # cs) =
     (if isSpace c then
        (case dropWhile isSpace cs of
           [] \<Rightarrow> c # removeSpaceBefore cls cs
         | q # rest \<Rightarrow>
             if q \<in> set cls then q # removeSpaceBefore cls rest
             else c # removeSpaceBefore cls cs)
      else c # removeSpaceBefore cls cs)"
  by pat_completeness auto
termination
proof (relation "measure (\<lambda>(cls, s). length s)", goal_cases)
  case (3 cls c cs q rest)
  have "length (dropWhile isSpace cs) \<le> length cs"
    by (rule length_dropWhile_le)
  with 3 show ?case by simp
qed auto

text \<open>
  \<open>calculateRequiredRows\<close> and GridNotebook compute \<open>cleanText\<close> by the same expression, and
  both build \<open>FORBIDDEN_START_CHARS\<close> from the same characters.
\<close>

definition cleanText :: "jsstring \<Rightarrow> jsstring" where
  \<comment> \<open>the four rules, the leading space added last and outside the replacements\<close>
  "cleanText text =
     SP # removeSpaceBefore CLOSE_SMART_QUOTES
            (removeSpaceAfter OPEN_SMART_QUOTES
               (removeSpaceAfter PUNCTUATION (replaceNewlines text)))"

section \<open>The cell assigner of GridNotebook\<close>

record cell =
  char :: jsstring
  subChar :: "jsstring option"

definition emptyCell :: cell where
  \<comment> \<open>\<open>{ char: '' }\<close>\<close>
  "emptyCell = \<lparr>char = [], subChar = None\<rparr>"

text \<open>
  One iteration of the \<open>while\<close> loop of GridNotebook, on the pair of \<open>textIndex\<close> and
  \<open>displayCells\<close>. It is run only under the loop condition, so \<open>cleanText[textIndex]\<close>
  is in range; \<open>cleanText[textIndex + 1]\<close> may be \<open>undefined\<close>.
\<close>

definition gridStep :: "jsstring \<Rightarrow> nat \<times> cell list \<Rightarrow> nat \<times> cell list" where
  "gridStep clean = (\<lambda>(textIndex, displayCells).
     let ch = clean ! textIndex in
     if ch = SP \<and> length displayCells > 0 \<and> length displayCells mod GRID_COLS = 0
     then (textIndex + 1, displayCells)
     else
       let nextChar = charAt clean (textIndex + 1);
           currentCellIndex = length displayCells;
           isEndOfLine = ((currentCellIndex + 1) mod GRID_COLS = 0);
           isNextForbiddenStart = arrayIncludes FORBIDDEN_START_CHARS nextChar
       in if isEndOfLine \<and> isNextForbiddenStart
          then (textIndex + 2,
                displayCells @ [\<lparr>char = [ch], subChar = map_option (\<lambda>c. [c]) nextChar\<rparr>])
          else (textIndex + 1, displayCells @ [\<lparr>char = [ch], subChar = None\<rparr>]))"

definition gridCond :: "jsstring \<Rightarrow> nat \<Rightarrow> nat \<times> cell list \<Rightarrow> bool" where
  \<comment> \<open>\<open>textIndex < cleanText.length && displayCells.length < maxChars\<close>\<close>
  "gridCond clean maxChars = (\<lambda>(textIndex, displayCells).
     textIndex < length clean \<and> length displayCells < maxChars)"

function gridLoop :: "jsstring \<Rightarrow> nat \<Rightarrow> nat \<times> cell list \<Rightarrow> nat \<times> cell list" where
  "gridLoop clean maxChars s =
     (if gridCond clean maxChars s
      then gridLoop clean maxChars (gridStep clean s)
      else s)"
  by pat_completeness auto
termination
  by (relation "measure (\<lambda>(clean, maxChars, s). length clean - fst s)")
     (auto simp: gridCond_def gridStep_def Let_def split: if_splits prod.splits)

declare gridLoop.simps [simp del]

definition padCells :: "nat \<Rightarrow> cell list \<Rightarrow> cell list" where
  \<comment> \<open>\<open>while (displayCells.length < maxChars) displayCells.push({ char: '' })\<close>\<close>
  "padCells maxChars displayCells =
     displayCells @ replicate (maxChars - length displayCells) emptyCell"

definition emittedCells :: "jsstring \<Rightarrow> nat \<Rightarrow> cell list" where
  \<comment> \<open>\<open>displayCells\<close> when the first loop ends, started with \<open>textIndex = 0\<close> and no cell\<close>
  "emittedCells clean maxChars = snd (gridLoop clean maxChars (0, []))"

text \<open>
  The property \<open>rows\<close> is a number of rows: App passes 5, the result of
  \<open>calculateRequiredRows\<close>, \<open>prev + 1\<close> or \<open>Math.max(5, prev - 1)\<close>, always a natural number.
\<close>

definition GridNotebook :: "jsstring \<Rightarrow> nat \<Rightarrow> cell list" where
  \<comment> \<open>the array \<open>displayCells\<close> that the component groups into rows and renders\<close>
  "GridNotebook text rows =
     (let maxChars = rows * GRID_COLS
      in padCells maxChars (emittedCells (cleanText text) maxChars))"

section \<open>The row predictor of App\<close>

definition countStep :: "jsstring \<Rightarrow> nat \<times> nat \<Rightarrow> nat \<times> nat" where
  "countStep clean = (\<lambda>(textIndex, cellCount).
     let ch = clean ! textIndex in
     if ch = SP \<and> cellCount > 0 \<and> cellCount mod GRID_COLS = 0
     then (textIndex + 1, cellCount)
     else
       let nextChar = charAt clean (textIndex + 1);
           isEndOfLine = ((cellCount + 1) mod GRID_COLS = 0);
           isNextForbiddenStart = arrayIncludes FORBIDDEN_START_CHARS nextChar
       in if isEndOfLine \<and> isNextForbiddenStart
          then (textIndex + 2, cellCount + 1)
          else (textIndex + 1, cellCount + 1))"

function countLoop :: "jsstring \<Rightarrow> nat \<times> nat \<Rightarrow> nat \<times> nat" where
  "countLoop clean s =
     (if fst s < length clean
      then countLoop clean (countStep clean s)
      else s)"
  by pat_completeness auto
termination
  by (relation "measure (\<lambda>(clean, s). length clean - fst s)")
     (auto simp: countStep_def Let_def split: if_splits prod.splits)

declare countLoop.simps [simp del]

definition cellCount :: "jsstring \<Rightarrow> nat" where
  \<comment> \<open>\<open>cellCount\<close> when the loop ends, started with \<open>textIndex = 0\<close> and \<open>cellCount = 0\<close>\<close>
  "cellCount clean = snd (countLoop clean (0, 0))"

definition calculateRequiredRows :: "jsstring \<Rightarrow> nat" where
  \<comment> \<open>\<open>Math.max(5, Math.ceil(cellCount / GRID_COLS))\<close>; the quotient of two small
     non-negative integers is rounded up exactly\<close>
  "calculateRequiredRows text =
     max 5 ((cellCount (cleanText text) + GRID_COLS - 1) div GRID_COLS)"

section \<open>Predicates used in the statements\<close>

text \<open>
  What every cell written by the first loop looks like: one character as \<open>char\<close>, and a
  \<open>subChar\<close> only in the last column, where it is a forbidden line-start character standing
  right after \<open>char\<close> in the normalized text.
\<close>

definition cellInv :: "jsstring \<Rightarrow> nat \<Rightarrow> cell \<Rightarrow> bool" where
  "cellInv clean i c \<longleftrightarrow>
     length (char c) = 1 \<and>
     (case subChar c of
        None \<Rightarrow> True
      | Some s \<Rightarrow> Suc i mod GRID_COLS = 0 \<and>
          (\<exists>j \<in> {0 ..< length clean - 1}.
             char c = [clean ! j] \<and> s = [clean ! Suc j] \<and>
             clean ! Suc j \<in> set FORBIDDEN_START_CHARS))"

definition cellsInv :: "jsstring \<Rightarrow> cell list \<Rightarrow> bool" where
  "cellsInv clean cells \<longleftrightarrow> (\<forall>i < length cells. cellInv clean i (cells ! i))"

text \<open>
  \<open>adjacent P Q s\<close>: somewhere in \<open>s\<close> a character satisfying \<open>P\<close> is directly followed by
  one satisfying \<open>Q\<close>. A text is normalized when it has no line feed, no white space after
  sentence punctuation or after an opening curly quote, and none before a closing curly
  quote: the shapes the three replacements look for.
\<close>

fun adjacent :: "(jschar \<Rightarrow> bool) \<Rightarrow> (jschar \<Rightarrow> bool) \<Rightarrow> jsstring \<Rightarrow> bool" where
  "adjacent P Q (a # b # cs) = (P a \<and> Q b \<or> adjacent P Q (b # cs))"
| "adjacent P Q _ = False"

definition isNormalized :: "jsstring \<Rightarrow> bool" where
  "isNormalized t \<longleftrightarrow>
     LF \<notin> set t \<and>
     \<not> adjacent (\<lambda>c. c \<in> set PUNCTUATION) isSpace t \<and>
     \<not> adjacent (\<lambda>c. c \<in> set OPEN_SMART_QUOTES) isSpace t \<and>
     \<not> adjacent isSpace (\<lambda>c. c \<in> set CLOSE_SMART_QUOTES) t"

definition plainCells :: "jsstring \<Rightarrow> cell list" where
  \<comment> \<open>one cell \<open>{ char: c }\<close> for each character\<close>
  "plainCells s = map (\<lambda>c. \<lparr>char = [c], subChar = None\<rparr>) s"

section \<open>One iteration of either loop\<close>

lemma gridStep_advances: "fst s < fst (gridStep clean s)"
  by (cases s) (simp add: gridStep_def Let_def)

lemma countStep_advances: "fst s < fst (countStep clean s)"
  by (cases s) (simp add: countStep_def Let_def)

lemma gridStep_appends: "\<exists>ys. snd (gridStep clean s) = snd s @ ys \<and> length ys \<le> 1"
  by (cases s) (simp add: gridStep_def Let_def)

lemma gridStep_length_le: "length (snd (gridStep clean s)) \<le> Suc (length (snd s))"
  using gridStep_appends [of clean s] by auto

lemma countStep_gridStep:
  "countStep clean (fst s, length (snd s)) =
     (fst (gridStep clean s), length (snd (gridStep clean s)))"
  by (cases s) (simp add: countStep_def gridStep_def Let_def)

lemma countStep_mono: "snd s \<le> snd (countStep clean s)"
  by (cases s) (simp add: countStep_def Let_def)

section \<open>The loops\<close>

lemma countLoop_mono: "snd s \<le> snd (countLoop clean s)"
proof (induction clean s rule: countLoop.induct)
  case (1 clean s)
  show ?case
  proof (cases "fst s < length clean")
    case True
    with 1 have "snd (countStep clean s) \<le> snd (countLoop clean s)"
      by (simp add: countLoop.simps [of clean s])
    with countStep_mono [of s clean] show ?thesis by simp
  next
    case False
    then show ?thesis by (simp add: countLoop.simps [of clean s])
  qed
qed

lemma gridLoop_appends: "\<exists>ys. snd (gridLoop clean M s) = snd s @ ys"
proof (induction clean M s rule: gridLoop.induct)
  case (1 clean M s)
  show ?case
  proof (cases "gridCond clean M s")
    case True
    with 1 obtain ys where "snd (gridLoop clean M s) = snd (gridStep clean s) @ ys"
      by (auto simp: gridLoop.simps [of clean M s])
    with gridStep_appends [of clean s] show ?thesis by auto
  next
    case False
    then show ?thesis by (simp add: gridLoop.simps [of clean M s])
  qed
qed

lemma gridLoop_length:
  "length (snd s) \<le> M \<Longrightarrow>
   length (snd (gridLoop clean M s)) = min M (snd (countLoop clean (fst s, length (snd s))))"
proof (induction clean M s rule: gridLoop.induct)
  case (1 clean M s)
  show ?case
  proof (cases "gridCond clean M s")
    case True
    then have lt: "fst s < length clean" "length (snd s) < M"
      by (auto simp: gridCond_def split: prod.splits)
    then have "length (snd (gridStep clean s)) \<le> M"
      using gridStep_length_le [of clean s] by simp
    with 1 True have "length (snd (gridLoop clean M (gridStep clean s))) =
        min M (snd (countLoop clean (fst (gridStep clean s), length (snd (gridStep clean s)))))"
      by simp
    moreover have "countLoop clean (fst s, length (snd s)) =
        countLoop clean (fst (gridStep clean s), length (snd (gridStep clean s)))"
      using lt by (simp add: countLoop.simps [of clean "(fst s, length (snd s))"] countStep_gridStep)
    ultimately show ?thesis using True by (simp add: gridLoop.simps [of clean M s])
  next
    case False
    then have res: "gridLoop clean M s = s" by (simp add: gridLoop.simps [of clean M s])
    show ?thesis
    proof (cases "fst s < length clean")
      case True
      with False have "M \<le> length (snd s)" by (auto simp: gridCond_def split: prod.splits)
      with 1(2) have "length (snd s) = M" by simp
      with countLoop_mono [of "(fst s, length (snd s))" clean] res show ?thesis by simp
    next
      case False
      then show ?thesis using res 1(2) by (simp add: countLoop.simps [of clean "(fst s, length (snd s))"])
    qed
  qed
qed

lemma gridLoop_take:
  "M \<le> M' \<Longrightarrow> length (snd s) \<le> M \<Longrightarrow>
   snd (gridLoop clean M s) = take M (snd (gridLoop clean M' s))"
proof (induction clean M s rule: gridLoop.induct)
  case (1 clean M s)
  show ?case
  proof (cases "gridCond clean M s")
    case True
    then have lt: "fst s < length clean" "length (snd s) < M"
      by (auto simp: gridCond_def split: prod.splits)
    then have c': "gridCond clean M' s" using 1(2) by (auto simp: gridCond_def split: prod.splits)
    have "length (snd (gridStep clean s)) \<le> M"
      using gridStep_length_le [of clean s] lt by simp
    with 1 True have "snd (gridLoop clean M (gridStep clean s)) =
        take M (snd (gridLoop clean M' (gridStep clean s)))" by simp
    then show ?thesis using True c'
      by (simp add: gridLoop.simps [of clean M s] gridLoop.simps [of clean M' s])
  next
    case False
    then have res: "gridLoop clean M s = s" by (simp add: gridLoop.simps [of clean M s])
    obtain ys where ys: "snd (gridLoop clean M' s) = snd s @ ys"
      using gridLoop_appends by blast
    show ?thesis
    proof (cases "fst s < length clean")
      case True
      with False have "M \<le> length (snd s)" by (auto simp: gridCond_def split: prod.splits)
      with 1(3) have "length (snd s) = M" by simp
      then show ?thesis using res ys by simp
    next
      case False
      then have "\<not> gridCond clean M' s" by (auto simp: gridCond_def split: prod.splits)
      then have "gridLoop clean M' s = s" by (simp add: gridLoop.simps [of clean M' s])
      then show ?thesis using res 1(3) by simp
    qed
  qed
qed

section \<open>The shape of the cells\<close>

lemma cellsInv_snoc:
  "cellsInv clean cells \<Longrightarrow> cellInv clean (length cells) c \<Longrightarrow> cellsInv clean (cells @ [c])"
  by (auto simp: cellsInv_def nth_append less_Suc_eq)

lemma gridStep_cellsInv:
  assumes "gridCond clean M s" and "cellsInv clean (snd s)"
  shows "cellsInv clean (snd (gridStep clean s))"
proof -
  obtain ti cells where s: "s = (ti, cells)" by (cases s)
  from assms(1) s have ti: "ti < length clean" by (simp add: gridCond_def)
  from assms(2) s have inv: "cellsInv clean cells" by simp
  have plain: "cellInv clean (length cells) \<lparr>char = [clean ! ti], subChar = None\<rparr>"
    by (simp add: cellInv_def)
  have squeezed: "cellInv clean (length cells)
        \<lparr>char = [clean ! ti], subChar = map_option (\<lambda>c. [c]) (charAt clean (Suc ti))\<rparr>"
    if "Suc (length cells) mod GRID_COLS = 0"
      and "arrayIncludes FORBIDDEN_START_CHARS (charAt clean (Suc ti))"
  proof -
    from that(2) have "Suc ti < length clean" "clean ! Suc ti \<in> set FORBIDDEN_START_CHARS"
      by (auto simp: arrayIncludes_def charAt_def split: if_splits option.splits)
    then show ?thesis using that(1)
      by (auto simp: cellInv_def charAt_def intro!: bexI [of _ ti])
  qed
  show ?thesis
    using inv plain squeezed
    by (auto simp: s gridStep_def Let_def intro!: cellsInv_snoc)
qed

lemma gridLoop_cellsInv:
  "cellsInv clean (snd s) \<Longrightarrow> cellsInv clean (snd (gridLoop clean M s))"
proof (induction clean M s rule: gridLoop.induct)
  case (1 clean M s)
  show ?case
  proof (cases "gridCond clean M s")
    case True
    with 1 gridStep_cellsInv [of clean M s] show ?thesis
      by (simp add: gridLoop.simps [of clean M s])
  next
    case False
    with 1 show ?thesis by (simp add: gridLoop.simps [of clean M s])
  qed
qed

section \<open>The two walks agree; exit and iteration count\<close>

lemma gridLoop_count:
  "countLoop clean (fst (gridLoop clean M s), length (snd (gridLoop clean M s))) =
   countLoop clean (fst s, length (snd s))"
proof (induction clean M s rule: gridLoop.induct)
  case (1 clean M s)
  show ?case
  proof (cases "gridCond clean M s")
    case True
    then have "fst s < length clean" by (auto simp: gridCond_def split: prod.splits)
    then have "countLoop clean (fst s, length (snd s)) =
        countLoop clean (fst (gridStep clean s), length (snd (gridStep clean s)))"
      by (simp add: countLoop.simps [of clean "(fst s, length (snd s))"] countStep_gridStep)
    with 1 True show ?thesis by (simp add: gridLoop.simps [of clean M s])
  next
    case False
    then show ?thesis by (simp add: gridLoop.simps [of clean M s])
  qed
qed

lemma gridLoop_exit: "\<not> gridCond clean M (gridLoop clean M s)"
proof (induction clean M s rule: gridLoop.induct)
  case (1 clean M s)
  then show ?case by (cases "gridCond clean M s") (simp_all add: gridLoop.simps [of clean M s])
qed

lemma gridLoop_iterations:
  "\<exists>n \<le> length clean - fst s.
      gridLoop clean M s = (gridStep clean ^^ n) s \<and>
      (\<forall>k < n. gridCond clean M ((gridStep clean ^^ k) s))"
proof (induction clean M s rule: gridLoop.induct)
  case (1 clean M s)
  show ?case
  proof (cases "gridCond clean M s")
    case True
    then have lt: "fst s < length clean" by (auto simp: gridCond_def split: prod.splits)
    from 1 True obtain n where n: "n \<le> length clean - fst (gridStep clean s)"
        "gridLoop clean M (gridStep clean s) = (gridStep clean ^^ n) (gridStep clean s)"
        "\<forall>k < n. gridCond clean M ((gridStep clean ^^ k) (gridStep clean s))"
      by blast
    have "Suc n \<le> length clean - fst s"
      using n(1) lt gridStep_advances [of s clean] by linarith
    moreover have "gridLoop clean M s = (gridStep clean ^^ Suc n) s"
      using True n(2) by (simp add: gridLoop.simps [of clean M s] funpow_swap1)
    moreover have "\<forall>k < Suc n. gridCond clean M ((gridStep clean ^^ k) s)"
    proof (intro allI impI)
      fix k assume "k < Suc n"
      then show "gridCond clean M ((gridStep clean ^^ k) s)"
        using True n(3) by (cases k) (simp_all add: funpow_swap1)
    qed
    ultimately show ?thesis by blast
  next
    case False
    then have "gridLoop clean M s = (gridStep clean ^^ 0) s"
      by (simp add: gridLoop.simps [of clean M s])
    then show ?thesis by blast
  qed
qed

lemma countLoop_iterations:
  "\<exists>n \<le> length clean - fst s.
      countLoop clean s = (countStep clean ^^ n) s \<and>
      (\<forall>k < n. fst ((countStep clean ^^ k) s) < length clean)"
proof (induction clean s rule: countLoop.induct)
  case (1 clean s)
  show ?case
  proof (cases "fst s < length clean")
    case True
    with 1 obtain n where n: "n \<le> length clean - fst (countStep clean s)"
        "countLoop clean (countStep clean s) = (countStep clean ^^ n) (countStep clean s)"
        "\<forall>k < n. fst ((countStep clean ^^ k) (countStep clean s)) < length clean"
      by blast
    have "Suc n \<le> length clean - fst s"
      using n(1) True countStep_advances [of s clean] by linarith
    moreover have "countLoop clean s = (countStep clean ^^ Suc n) s"
      using True n(2) by (simp add: countLoop.simps [of clean s] funpow_swap1)
    moreover have "\<forall>k < Suc n. fst ((countStep clean ^^ k) s) < length clean"
    proof (intro allI impI)
      fix k assume "k < Suc n"
      then show "fst ((countStep clean ^^ k) s) < length clean"
        using True n(3) by (cases k) (simp_all add: funpow_swap1)
    qed
    ultimately show ?thesis by blast
  next
    case False
    then have "countLoop clean s = (countStep clean ^^ 0) s"
      by (simp add: countLoop.simps [of clean s])
    then show ?thesis by blast
  qed
qed

lemma countLoop_exit: "\<not> fst (countLoop clean s) < length clean"
proof (induction clean s rule: countLoop.induct)
  case (1 clean s)
  then show ?case by (cases "fst s < length clean") (simp_all add: countLoop.simps [of clean s])
qed

section \<open>The normalizer on normalized text\<close>

lemma replaceNewlines_id: "LF \<notin> set t \<Longrightarrow> replaceNewlines t = t"
  by (induction t) (auto simp: replaceNewlines_def)

lemma removeSpaceAfter_id:
  "\<not> adjacent (\<lambda>c. c \<in> set cls) isSpace t \<Longrightarrow> removeSpaceAfter cls t = t"
proof (induction t)
  case Nil
  then show ?case by simp
next
  case (Cons c cs)
  then show ?case by (cases cs) auto
qed

lemma adjacent_space_run:
  "isSpace c \<Longrightarrow> dropWhile isSpace cs = q # rest \<Longrightarrow> Q q \<Longrightarrow> adjacent isSpace Q (c # cs)"
proof (induction cs arbitrary: c)
  case Nil
  then show ?case by simp
next
  case (Cons d ds)
  then show ?case by (cases "isSpace d") auto
qed

lemma removeSpaceBefore_id:
  "\<not> adjacent isSpace (\<lambda>c. c \<in> set cls) t \<Longrightarrow> removeSpaceBefore cls t = t"
proof (induction t)
  case Nil
  then show ?case by simp
next
  case (Cons c cs)
  have tl: "\<not> adjacent isSpace (\<lambda>c. c \<in> set cls) cs"
    using Cons.prems by (cases cs) auto
  have "q \<notin> set cls" if "isSpace c" "dropWhile isSpace cs = q # rest" for q rest
    using adjacent_space_run [of c cs q rest "\<lambda>c. c \<in> set cls"] that Cons.prems by blast
  then show ?case using Cons.IH [OF tl] by (auto split: list.splits)
qed

subsection \<open>The normalizer on a run of characters without white space\<close>

lemma removeSpaceAfter_prefix:
  "\<forall>x \<in> set xs. \<not> isSpace x \<Longrightarrow> xs \<noteq> [] \<Longrightarrow> last xs \<notin> set cls \<Longrightarrow>
   removeSpaceAfter cls (xs @ ys) = xs @ removeSpaceAfter cls ys"
proof (induction xs)
  case Nil
  then show ?case by simp
next
  case (Cons x xs)
  show ?case
  proof (cases xs)
    case Nil
    with Cons.prems show ?thesis by simp
  next
    case (Cons x' xs')
    with Cons.prems Cons.IH show ?thesis by simp
  qed
qed

lemma removeSpaceAfter_two:
  "a \<notin> set cls \<Longrightarrow> \<exists>r. removeSpaceAfter cls (a # c # cs) = a # c # r"
  by simp

lemma removeSpaceBefore_prefix:
  "\<forall>x \<in> set xs. \<not> isSpace x \<Longrightarrow>
   removeSpaceBefore cls (xs @ ys) = xs @ removeSpaceBefore cls ys"
  by (induction xs) auto

lemma isSpace_SP: "isSpace SP"
  by (simp add: isSpace_def SP_def)

lemma isSpace_LF: "isSpace LF"
  by (simp add: isSpace_def LF_def)

lemma cleanText_shape:
  assumes xs: "\<forall>x \<in> set xs. \<not> isSpace x" "xs \<noteq> []"
    and lst: "last xs \<notin> set PUNCTUATION" "last xs \<notin> set OPEN_SMART_QUOTES"
    and c: "\<not> isSpace c" "c \<notin> set CLOSE_SMART_QUOTES"
  shows "\<exists>r. cleanText (xs @ SP # c # rest) = SP # xs @ SP # c # r"
proof -
  have nl: "\<forall>x \<in> set xs. x \<noteq> LF" "c \<noteq> LF"
    using xs(1) c(1) isSpace_LF by auto
  then have "map (\<lambda>c. if c = LF then SP else c) xs = xs"
    by (simp add: map_idI)
  then have 1: "replaceNewlines (xs @ SP # c # rest) = xs @ SP # c # replaceNewlines rest"
    using nl(2) by (simp add: replaceNewlines_def SP_def LF_def)
  have sp: "SP \<notin> set PUNCTUATION" "SP \<notin> set OPEN_SMART_QUOTES"
    by (simp_all add: SP_def PUNCTUATION_def OPEN_SMART_QUOTES_def)
  obtain r2 where 2: "removeSpaceAfter PUNCTUATION (xs @ SP # c # replaceNewlines rest) = xs @ SP # c # r2"
    using removeSpaceAfter_prefix [OF xs lst(1)] removeSpaceAfter_two [OF sp(1)] by metis
  obtain r3 where 3: "removeSpaceAfter OPEN_SMART_QUOTES (xs @ SP # c # r2) = xs @ SP # c # r3"
    using removeSpaceAfter_prefix [OF xs lst(2)] removeSpaceAfter_two [OF sp(2)] by metis
  have 4: "removeSpaceBefore CLOSE_SMART_QUOTES (xs @ SP # c # r3) =
      xs @ SP # c # removeSpaceBefore CLOSE_SMART_QUOTES r3"
    using removeSpaceBefore_prefix [OF xs(1)] c isSpace_SP by simp
  show ?thesis by (simp add: cleanText_def 1 2 3 4)
qed

section \<open>The grid as emitted cells and padding\<close>

lemma emittedCells_length: "length (emittedCells clean M) = min M (cellCount clean)"
  using gridLoop_length [of "(0, [])" M clean] by (simp add: emittedCells_def cellCount_def)

lemma emittedCells_cellsInv: "cellsInv clean (emittedCells clean M)"
  using gridLoop_cellsInv [of clean "(0, [])" M] by (simp add: cellsInv_def emittedCells_def)

lemma emittedCells_take:
  "M \<le> M' \<Longrightarrow> emittedCells clean M = take M (emittedCells clean M')"
  using gridLoop_take [of M M' "(0, [])" clean] by (simp add: emittedCells_def)

lemma GridNotebook_split:
  "GridNotebook text rows =
     emittedCells (cleanText text) (rows * GRID_COLS) @
     replicate (rows * GRID_COLS - length (emittedCells (cleanText text) (rows * GRID_COLS)))
       emptyCell"
  by (simp add: GridNotebook_def padCells_def Let_def)

lemma GridNotebook_length: "length (GridNotebook text rows) = rows * GRID_COLS"
  by (simp add: GridNotebook_split emittedCells_length)

lemma required_rows_enough:
  "cellCount (cleanText text) \<le> calculateRequiredRows text * GRID_COLS"
  unfolding calculateRequiredRows_def GRID_COLS_def by presburger

lemma GridNotebook_emitted:
  "i < length (emittedCells (cleanText text) (rows * GRID_COLS)) \<Longrightarrow>
   cellInv (cleanText text) i (GridNotebook text rows ! i)"
  using emittedCells_cellsInv [of "cleanText text" "rows * GRID_COLS"]
  by (simp add: GridNotebook_split nth_append cellsInv_def)

lemma GridNotebook_padding:
  "length (emittedCells (cleanText text) (rows * GRID_COLS)) \<le> i \<Longrightarrow>
   i < rows * GRID_COLS \<Longrightarrow> GridNotebook text rows ! i = emptyCell"
  by (simp add: GridNotebook_split nth_append)

lemma GridNotebook_take:
  "n \<le> rows * GRID_COLS \<Longrightarrow> n \<le> cellCount (cleanText text) \<Longrightarrow>
   take n (GridNotebook text rows) = emittedCells (cleanText text) n"
  using emittedCells_take [of n "rows * GRID_COLS" "cleanText text"]
  by (simp add: GridNotebook_split emittedCells_length)

lemma GridNotebook_nth_emitted:
  assumes "i < n" "n \<le> rows * GRID_COLS" "length (emittedCells (cleanText text) n) = n"
  shows "GridNotebook text rows ! i = emittedCells (cleanText text) n ! i"
proof -
  from assms(3) have "n \<le> cellCount (cleanText text)"
    by (simp add: emittedCells_length)
  with assms(2) have "take n (GridNotebook text rows) = emittedCells (cleanText text) n"
    by (rule GridNotebook_take)
  then have "emittedCells (cleanText text) n ! i = take n (GridNotebook text rows) ! i"
    by simp
  with assms(1) show ?thesis by simp
qed

lemma first_row_walk:
  assumes "length xs = 9" "c \<noteq> SP"
  shows "emittedCells (SP # xs @ SP # c # r) 11 = plainCells (SP # xs @ [c])"
proof -
  from assms(1) obtain x1 x2 x3 x4 x5 x6 x7 x8 x9 where
    xs: "xs = [x1, x2, x3, x4, x5, x6, x7, x8, x9]"
    by (auto simp: eval_nat_numeral length_Suc_conv)
  from assms(2) have c: "c \<noteq> 32" by (simp add: SP_def)
  show ?thesis
    unfolding xs emittedCells_def plainCells_def
    by (simp add: c gridLoop.simps gridCond_def gridStep_def Let_def charAt_def arrayIncludes_def
        FORBIDDEN_START_CHARS_def PUNCTUATION_def GRID_COLS_def SP_def)
qed

section \<open>The claims\<close>

text \<open>
  C1. The counting walk of \<open>calculateRequiredRows\<close> and the materializing walk of
  GridNotebook take the same decision in every iteration: from corresponding states (same
  \<open>textIndex\<close>, \<open>cellCount\<close> equal to the number of cells so far) one step of either leads to
  corresponding states. Hence, with \<open>rows = calculateRequiredRows text\<close>, the grid holds
  exactly \<open>cellCount\<close> cells with a glyph, and the cells after them, \<open>rows * 10 - cellCount\<close>
  many, are all empty.
\<close>

theorem count_matches_grid:
  "let clean = cleanText text;
       rows = calculateRequiredRows text;
       grid = GridNotebook text rows
   in (\<forall>s. countStep clean (fst s, length (snd s)) =
              (fst (gridStep clean s), length (snd (gridStep clean s)))) \<and>
      cellCount clean \<le> rows * GRID_COLS \<and>
      length grid = rows * GRID_COLS \<and>
      (\<forall>i < cellCount clean. char (grid ! i) \<noteq> []) \<and>
      drop (cellCount clean) grid =
        replicate (rows * GRID_COLS - cellCount clean) \<lparr>char = [], subChar = None\<rparr>"
proof -
  let ?clean = "cleanText text" and ?rows = "calculateRequiredRows text"
  have le: "cellCount ?clean \<le> ?rows * GRID_COLS"
    by (rule required_rows_enough)
  then have len: "length (emittedCells ?clean (?rows * GRID_COLS)) = cellCount ?clean"
    by (simp add: emittedCells_length)
  have glyph: "char (GridNotebook text ?rows ! i) \<noteq> []" if "i < cellCount ?clean" for i
    using GridNotebook_emitted [of i "text" ?rows] that len by (auto simp: cellInv_def)
  have pad: "drop (cellCount ?clean) (GridNotebook text ?rows) =
      replicate (?rows * GRID_COLS - cellCount ?clean) \<lparr>char = [], subChar = None\<rparr>"
    using len by (simp add: GridNotebook_split [of "text" ?rows] emptyCell_def)
  show ?thesis
    unfolding Let_def using le glyph pad
    by (simp add: GridNotebook_length countStep_gridStep)
qed

theorem count_matches_grid_witness:
  "cellCount (cleanText (ascii ''123456789.rest'')) = 14 \<and>
   calculateRequiredRows (ascii ''123456789.rest'') = 5 \<and>
   length (GridNotebook (ascii ''123456789.rest'') 5) = 50 \<and>
   char (GridNotebook (ascii ''123456789.rest'') 5 ! 13) \<noteq> [] \<and>
   drop 14 (GridNotebook (ascii ''123456789.rest'') 5) =
     replicate 36 \<lparr>char = [], subChar = None\<rparr>"
proof -
  have n: "cellCount (cleanText (ascii ''123456789.rest'')) = 14"
    by code_simp
  have r: "calculateRequiredRows (ascii ''123456789.rest'') = 5"
    by (simp add: calculateRequiredRows_def n GRID_COLS_def)
  from count_matches_grid [of "ascii ''123456789.rest''"] show ?thesis
    unfolding Let_def n r by (auto simp: GRID_COLS_def)
qed

text \<open>
  C2. The squeeze at the end of a line, on \<open>"123456789.rest"\<close> and any grid of at least two
  rows: after the blank first cell, the cell at index 9 (the last column of row 1) holds
  \<open>'9'\<close> with the companion \<open>'.'\<close>, and \<open>'r'\<close> is in the first cell of row 2 (index 10).
\<close>

theorem squeeze_example:
  assumes "2 \<le> rows"
  shows "GridNotebook (ascii ''123456789.rest'') rows ! 0 = \<lparr>char = ascii '' '', subChar = None\<rparr> \<and>
         GridNotebook (ascii ''123456789.rest'') rows ! 9 =
           \<lparr>char = ascii ''9'', subChar = Some (ascii ''.'')\<rparr> \<and>
         GridNotebook (ascii ''123456789.rest'') rows ! 10 = \<lparr>char = ascii ''r'', subChar = None\<rparr>"
proof -
  have e: "emittedCells (cleanText (ascii ''123456789.rest'')) 11 =
      plainCells (ascii '' 12345678'') @
      [\<lparr>char = ascii ''9'', subChar = Some (ascii ''.'')\<rparr>, \<lparr>char = ascii ''r'', subChar = None\<rparr>]"
    by code_simp
  then have len: "length (emittedCells (cleanText (ascii ''123456789.rest'')) 11) = 11"
    by (simp add: plainCells_def ascii_def)
  from assms have rows: "11 \<le> rows * GRID_COLS"
    by (simp add: GRID_COLS_def)
  have nth: "GridNotebook (ascii ''123456789.rest'') rows ! i =
      (plainCells (ascii '' 12345678'') @
       [\<lparr>char = ascii ''9'', subChar = Some (ascii ''.'')\<rparr>, \<lparr>char = ascii ''r'', subChar = None\<rparr>]) ! i"
    if "i < 11" for i
    using GridNotebook_nth_emitted [OF that rows len] e by simp
  from nth [of 0] nth [of 9] nth [of 10] show ?thesis
    by (simp add: plainCells_def ascii_def)
qed

theorem squeeze_example_witness:
  "(2::nat) \<le> 5 \<and>
   GridNotebook (ascii ''123456789.rest'') 5 ! 9 = \<lparr>char = ascii ''9'', subChar = Some (ascii ''.'')\<rparr> \<and>
   GridNotebook (ascii ''123456789.rest'') 5 ! 10 = \<lparr>char = ascii ''r'', subChar = None\<rparr>"
  using squeeze_example [of 5] by simp

text \<open>
  C3. For every text and every number of rows (in particular every \<open>rows \<ge> 5\<close>) the grid
  has exactly \<open>rows * 10\<close> cells; the cells written from the text come first, each with a
  one-character \<open>char\<close>, and every cell after them is \<open>{ char: '' }\<close>, with no \<open>subChar\<close>.
\<close>

theorem grid_has_requested_size:
  "let maxChars = rows * GRID_COLS;
       grid = GridNotebook text rows;
       emitted = length (emittedCells (cleanText text) maxChars)
   in length grid = maxChars \<and> emitted \<le> maxChars \<and>
      (\<forall>i < emitted. length (char (grid ! i)) = 1) \<and>
      (\<forall>i. emitted \<le> i \<and> i < maxChars \<longrightarrow> grid ! i = \<lparr>char = [], subChar = None\<rparr>)"
proof -
  let ?M = "rows * GRID_COLS"
  let ?k = "length (emittedCells (cleanText text) ?M)"
  have "length (char (GridNotebook text rows ! i)) = 1" if "i < ?k" for i
    using GridNotebook_emitted [OF that] by (simp add: cellInv_def)
  moreover have "GridNotebook text rows ! i = \<lparr>char = [], subChar = None\<rparr>"
    if "?k \<le> i" "i < ?M" for i
    using GridNotebook_padding [OF that] by (simp add: emptyCell_def)
  ultimately show ?thesis
    unfolding Let_def by (simp add: GridNotebook_length emittedCells_length)
qed

theorem grid_has_requested_size_witness:
  "length (GridNotebook (ascii ''hi'') 5) = 50 \<and>
   length (emittedCells (cleanText (ascii ''hi'')) 50) = 3 \<and>
   length (char (GridNotebook (ascii ''hi'') 5 ! 2)) = 1 \<and>
   GridNotebook (ascii ''hi'') 5 ! 3 = \<lparr>char = [], subChar = None\<rparr>"
proof -
  have k: "length (emittedCells (cleanText (ascii ''hi'')) (5 * GRID_COLS)) = 3"
    by code_simp
  from grid_has_requested_size [of 5 "ascii ''hi''"] show ?thesis
    unfolding Let_def k using k by (auto simp: GRID_COLS_def)
qed

text \<open>
  C4. The claim that no row after the first starts with a forbidden line-start character
  does not hold of the code. The look-ahead of the squeeze reads only the next character
  and a cell takes only one companion: in \<open>"123456789 !"\<close> the space after \<open>'9'\<close> is skipped at
  the start of row 2 and \<open>'!'\<close> becomes its first cell; in \<open>"123456789..."\<close> the first dot is
  squeezed beside \<open>'9'\<close> and the second dot starts row 2.
\<close>

theorem forbidden_char_starts_row:
  "GridNotebook (ascii ''123456789 !'') 5 ! 9 = \<lparr>char = ascii ''9'', subChar = None\<rparr> \<and>
   GridNotebook (ascii ''123456789 !'') 5 ! 10 = \<lparr>char = ascii ''!'', subChar = None\<rparr> \<and>
   GridNotebook (ascii ''123456789...'') 5 ! 9 = \<lparr>char = ascii ''9'', subChar = Some (ascii ''.'')\<rparr> \<and>
   GridNotebook (ascii ''123456789...'') 5 ! 10 = \<lparr>char = ascii ''.'', subChar = None\<rparr> \<and>
   10 mod GRID_COLS = 0 \<and> of_char (CHR ''!'') \<in> set FORBIDDEN_START_CHARS \<and>
   of_char (CHR ''.'') \<in> set FORBIDDEN_START_CHARS"
  by code_simp

text \<open>
  C5. As stated the claim fails: the leading space is added on every call, so a normalized
  text that already starts with one space comes back with two.
\<close>

theorem normalize_not_idempotent:
  "isNormalized (ascii '' a'') \<and> ascii '' a'' = SP # ascii ''a'' \<and>
   cleanText (ascii '' a'') = ascii ''  a'' \<and> cleanText (ascii '' a'') \<noteq> ascii '' a''"
  by code_simp

text \<open>
  C5, amended. On a normalized text (no line feed, no white space after sentence
  punctuation or after an opening curly quote, none before a closing curly quote) the three
  replacements change nothing, and the normalizer returns the text with one more space in
  front.
\<close>

theorem normalize_normalized:
  assumes "isNormalized t"
  shows "removeSpaceBefore CLOSE_SMART_QUOTES
           (removeSpaceAfter OPEN_SMART_QUOTES
              (removeSpaceAfter PUNCTUATION (replaceNewlines t))) = t \<and>
         cleanText t = SP # t"
  using assms
  by (simp add: isNormalized_def cleanText_def replaceNewlines_id removeSpaceAfter_id
      removeSpaceBefore_id)

theorem normalize_normalized_witness:
  "isNormalized (ascii '' a.b'') \<and> cleanText (ascii '' a.b'') = SP # ascii '' a.b''"
proof -
  have h: "isNormalized (ascii '' a.b'')" by code_simp
  from normalize_normalized [OF h] h show ?thesis by simp
qed

text \<open>
  C6. As stated the claim fails: the reserved leading space takes the first cell, so of
  ten characters without a space the tenth is the first cell of row 2, and the space after
  it is an ordinary cell, the second of row 2.
\<close>

theorem ten_chars_then_space:
  "char (GridNotebook (ascii ''abcdefghij klm'') 5 ! 10) = ascii ''j'' \<and>
   char (GridNotebook (ascii ''abcdefghij klm'') 5 ! 11) = ascii '' '' \<and>
   char (GridNotebook (ascii ''abcdefghij klm'') 5 ! 12) = ascii ''k'' \<and>
   char (GridNotebook (ascii ''abcdefghij klm'') 5 ! 10) \<noteq> ascii ''k''"
  by code_simp

text \<open>
  C6, amended. The shape is nine characters, not ten: for nine characters without white
  space, the last of them neither sentence punctuation nor an opening curly quote (so that
  the normalizer keeps the space), then a space, then a character that is neither white
  space nor a closing curly quote, then any text, and at least two rows: row 1 is the
  blank cell and the nine characters, the space is dropped, and the character after the
  space is the first cell of row 2.
\<close>

theorem row_start_space_dropped:
  assumes "length xs = 9" and "\<forall>x \<in> set xs. \<not> isSpace x"
    and "last xs \<notin> set PUNCTUATION" and "last xs \<notin> set OPEN_SMART_QUOTES"
    and "\<not> isSpace c" and "c \<notin> set CLOSE_SMART_QUOTES"
    and "2 \<le> rows"
  shows "take 10 (GridNotebook (xs @ SP # c # rest) rows) = plainCells (SP # xs) \<and>
         GridNotebook (xs @ SP # c # rest) rows ! 10 = \<lparr>char = [c], subChar = None\<rparr>"
proof -
  from assms(1) have ne: "xs \<noteq> []" by auto
  obtain r where clean: "cleanText (xs @ SP # c # rest) = SP # xs @ SP # c # r"
    using cleanText_shape [OF assms(2) ne assms(3,4,5,6)] by blast
  from assms(5) have c: "c \<noteq> SP" using isSpace_SP by auto
  have e: "emittedCells (cleanText (xs @ SP # c # rest)) 11 = plainCells (SP # xs @ [c])"
    unfolding clean by (rule first_row_walk [OF assms(1) c])
  then have len: "length (emittedCells (cleanText (xs @ SP # c # rest)) 11) = 11"
    using assms(1) by (simp add: plainCells_def)
  from assms(7) have rows: "11 \<le> rows * GRID_COLS"
    by (simp add: GRID_COLS_def)
  have nth: "GridNotebook (xs @ SP # c # rest) rows ! i =
      plainCells (SP # xs @ [c]) ! i" if "i < 11" for i
    using GridNotebook_nth_emitted [OF that rows len] e by simp
  have "take 10 (GridNotebook (xs @ SP # c # rest) rows) = plainCells (SP # xs)"
  proof (rule nth_equalityI)
    show "length (take 10 (GridNotebook (xs @ SP # c # rest) rows)) = length (plainCells (SP # xs))"
      using assms(1,7) by (simp add: GridNotebook_length plainCells_def GRID_COLS_def)
  next
    fix i assume "i < length (take 10 (GridNotebook (xs @ SP # c # rest) rows))"
    then have i: "i < 10" by simp
    then have "take 10 (GridNotebook (xs @ SP # c # rest) rows) ! i = plainCells (SP # xs @ [c]) ! i"
      using nth [of i] by simp
    also have "\<dots> = plainCells (SP # xs) ! i"
      using i assms(1) by (simp add: plainCells_def nth_append nth_Cons split: nat.splits)
    finally show "take 10 (GridNotebook (xs @ SP # c # rest) rows) ! i = plainCells (SP # xs) ! i" .
  qed
  moreover have "GridNotebook (xs @ SP # c # rest) rows ! 10 = \<lparr>char = [c], subChar = None\<rparr>"
    using nth [of 10] assms(1) by (simp add: plainCells_def nth_append)
  ultimately show ?thesis by simp
qed

theorem row_start_space_dropped_witness:
  "length (ascii ''abcdefghi'') = 9 \<and> (2::nat) \<le> 5 \<and>
   ascii ''abcdefghi'' @ SP # of_char CHR ''j'' # ascii ''kl'' = ascii ''abcdefghi jkl'' \<and>
   take 10 (GridNotebook (ascii ''abcdefghi jkl'') 5) = plainCells (ascii '' abcdefghi'') \<and>
   GridNotebook (ascii ''abcdefghi jkl'') 5 ! 10 = \<lparr>char = ascii ''j'', subChar = None\<rparr>"
proof -
  have t: "ascii ''abcdefghi'' @ SP # of_char CHR ''j'' # ascii ''kl'' = ascii ''abcdefghi jkl''"
    by (simp add: ascii_def SP_def)
  have h: "length (ascii ''abcdefghi'') = 9" "\<forall>x \<in> set (ascii ''abcdefghi''). \<not> isSpace x"
      "last (ascii ''abcdefghi'') \<notin> set PUNCTUATION"
      "last (ascii ''abcdefghi'') \<notin> set OPEN_SMART_QUOTES"
      "\<not> isSpace (of_char CHR ''j'')" "of_char CHR ''j'' \<notin> set CLOSE_SMART_QUOTES"
      "(2::nat) \<le> 5"
    by (simp_all add: ascii_def isSpace_def PUNCTUATION_def OPEN_SMART_QUOTES_def
        CLOSE_SMART_QUOTES_def)
  from row_start_space_dropped [OF h, of "ascii ''kl''"] show ?thesis
    unfolding t using h(1) by (simp add: ascii_def SP_def)
qed

text \<open>
  C7. Every cell of the grid has at most one character as \<open>char\<close>; a cell with a
  \<open>subChar\<close> is in the last column of its row, the \<open>subChar\<close> is one character of
  \<open>FORBIDDEN_START_CHARS\<close>, and it stands right after the cell's \<open>char\<close> in the normalized
  text.
\<close>

theorem cell_invariant:
  assumes "i < length (GridNotebook text rows)"
  shows "length (char (GridNotebook text rows ! i)) \<le> 1 \<and>
    (\<forall>s. subChar (GridNotebook text rows ! i) = Some s \<longrightarrow>
       i mod GRID_COLS = GRID_COLS - 1 \<and>
       (\<exists>q j. s = [q] \<and> q \<in> set FORBIDDEN_START_CHARS \<and>
          Suc j < length (cleanText text) \<and>
          char (GridNotebook text rows ! i) = [cleanText text ! j] \<and>
          cleanText text ! Suc j = q))"
proof (cases "i < length (emittedCells (cleanText text) (rows * GRID_COLS))")
  case True
  let ?c = "GridNotebook text rows ! i"
  have inv: "cellInv (cleanText text) i ?c"
    by (rule GridNotebook_emitted [OF True])
  have "i mod GRID_COLS = GRID_COLS - 1 \<and>
       (\<exists>q j. s = [q] \<and> q \<in> set FORBIDDEN_START_CHARS \<and>
          Suc j < length (cleanText text) \<and>
          char ?c = [cleanText text ! j] \<and> cleanText text ! Suc j = q)"
    if s: "subChar ?c = Some s" for s
  proof -
    from inv s obtain j where j: "Suc i mod GRID_COLS = 0" "j < length (cleanText text) - 1"
        "char ?c = [cleanText text ! j]" "s = [cleanText text ! Suc j]"
        "cleanText text ! Suc j \<in> set FORBIDDEN_START_CHARS"
      by (auto simp: cellInv_def)
    from j(1) have "i mod GRID_COLS = GRID_COLS - 1"
      unfolding GRID_COLS_def by presburger
    moreover from j(2) have "Suc j < length (cleanText text)" by simp
    ultimately show ?thesis using j(3-5) by blast
  qed
  moreover from inv have "length (char ?c) \<le> 1" by (simp add: cellInv_def)
  ultimately show ?thesis by blast
next
  case False
  with assms have "GridNotebook text rows ! i = emptyCell"
    by (simp add: GridNotebook_padding GridNotebook_length)
  then show ?thesis by (simp add: emptyCell_def)
qed

theorem cell_invariant_witness:
  "9 < length (GridNotebook (ascii ''123456789.rest'') 5) \<and>
   subChar (GridNotebook (ascii ''123456789.rest'') 5 ! 9) = Some (ascii ''.'') \<and>
   length (char (GridNotebook (ascii ''123456789.rest'') 5 ! 9)) \<le> 1 \<and>
   9 mod GRID_COLS = GRID_COLS - 1 \<and>
   (\<exists>q j. ascii ''.'' = [q] \<and> q \<in> set FORBIDDEN_START_CHARS \<and>
      Suc j < length (cleanText (ascii ''123456789.rest'')) \<and>
      char (GridNotebook (ascii ''123456789.rest'') 5 ! 9) = [cleanText (ascii ''123456789.rest'') ! j] \<and>
      cleanText (ascii ''123456789.rest'') ! Suc j = q)"
proof -
  have a: "9 < length (GridNotebook (ascii ''123456789.rest'') 5)"
    by code_simp
  have b: "subChar (GridNotebook (ascii ''123456789.rest'') 5 ! 9) = Some (ascii ''.'')"
    by code_simp
  from cell_invariant [OF a] a b show ?thesis by blast
qed

text \<open>
  C8. Empty input: \<open>calculateRequiredRows('')\<close> is 5, and the grid for the empty text and
  5 rows has 50 cells: the blank cell of the reserved leading space, then 49 cells with an
  empty \<open>char\<close>. Nothing fails.
\<close>

theorem empty_input:
  "calculateRequiredRows [] = 5 \<and>
   GridNotebook [] 5 = \<lparr>char = [SP], subChar = None\<rparr> # replicate 49 \<lparr>char = [], subChar = None\<rparr>"
  by code_simp

text \<open>
  C9. Both walks are total. Every iteration moves the read cursor forward; under either
  loop condition the read \<open>cleanText[textIndex]\<close> is in range; each loop leaves after at most
  \<open>cleanText.length\<close> iterations, in a state where its condition is false; and the results
  are a grid of exactly \<open>rows * 10\<close> cells and a row count of at least 5.
\<close>

theorem layout_is_total:
  "let clean = cleanText text; maxChars = rows * GRID_COLS
   in (\<forall>s. fst s < fst (gridStep clean s)) \<and>
      (\<forall>s. fst s < fst (countStep clean s)) \<and>
      (\<forall>s. gridCond clean maxChars s \<longrightarrow> charAt clean (fst s) \<noteq> None) \<and>
      (\<forall>s. fst s < length clean \<longrightarrow> charAt clean (fst s) \<noteq> None) \<and>
      (\<exists>n \<le> length clean.
         gridLoop clean maxChars (0, []) = (gridStep clean ^^ n) (0, []) \<and>
         \<not> gridCond clean maxChars (gridLoop clean maxChars (0, []))) \<and>
      (\<exists>n \<le> length clean.
         countLoop clean (0, 0) = (countStep clean ^^ n) (0, 0) \<and>
         \<not> fst (countLoop clean (0, 0)) < length clean) \<and>
      length (GridNotebook text rows) = maxChars \<and>
      5 \<le> calculateRequiredRows text"
proof -
  let ?clean = "cleanText text" and ?M = "rows * GRID_COLS"
  obtain n where n: "n \<le> length ?clean - fst (0::nat, []::cell list)"
      "gridLoop ?clean ?M (0, []) = (gridStep ?clean ^^ n) (0, [])"
    using gridLoop_iterations [of ?clean "(0, [])" ?M] by blast
  have g: "\<exists>n \<le> length ?clean.
      gridLoop ?clean ?M (0, []) = (gridStep ?clean ^^ n) (0, []) \<and>
      \<not> gridCond ?clean ?M (gridLoop ?clean ?M (0, []))"
    using n gridLoop_exit [of ?clean ?M "(0, [])"] by auto
  obtain m where m: "m \<le> length ?clean - fst (0::nat, 0::nat)"
      "countLoop ?clean (0, 0) = (countStep ?clean ^^ m) (0, 0)"
    using countLoop_iterations [of ?clean "(0, 0)"] by blast
  have c: "\<exists>n \<le> length ?clean.
      countLoop ?clean (0, 0) = (countStep ?clean ^^ n) (0, 0) \<and>
      \<not> fst (countLoop ?clean (0, 0)) < length ?clean"
    using m countLoop_exit [of ?clean "(0, 0)"] by auto
  have r: "charAt ?clean (fst s) \<noteq> None" if "gridCond ?clean ?M s" for s
    using that by (cases s) (simp add: gridCond_def charAt_def)
  have "5 \<le> calculateRequiredRows text"
    by (simp add: calculateRequiredRows_def)
  with g c r show ?thesis
    unfolding Let_def
    by (simp add: gridStep_advances countStep_advances GridNotebook_length charAt_def)
qed

theorem layout_is_total_witness:
  "gridCond (cleanText (ascii ''.!?'')) 50 (0, []) \<and>
   charAt (cleanText (ascii ''.!?'')) 0 \<noteq> None \<and>
   (0::nat) < fst (gridStep (cleanText (ascii ''.!?'')) (0, [])) \<and>
   (0::nat) < fst (countStep (cleanText (ascii ''.!?'')) (0, 0)) \<and>
   length (GridNotebook (ascii ''.!?'') 5) = 50 \<and>
   calculateRequiredRows (ascii ''.!?'') = 5"
proof -
  have c: "gridCond (cleanText (ascii ''.!?'')) (5 * GRID_COLS) (0, [])"
    by code_simp
  have r: "calculateRequiredRows (ascii ''.!?'') = 5"
    by code_simp
  have "gridCond (cleanText (ascii ''.!?'')) (5 * GRID_COLS) (0, []) \<longrightarrow>
      charAt (cleanText (ascii ''.!?'')) (fst (0::nat, []::cell list)) \<noteq> None"
    and "fst (0::nat, []::cell list) < fst (gridStep (cleanText (ascii ''.!?'')) (0, []))"
    and "fst (0::nat, 0::nat) < fst (countStep (cleanText (ascii ''.!?'')) (0, 0))"
    and "length (GridNotebook (ascii ''.!?'') 5) = 5 * GRID_COLS"
    using layout_is_total [of "ascii ''.!?''" 5] unfolding Let_def by blast+
  with c r show ?thesis by (simp add: GRID_COLS_def)
qed

text \<open>
  C10. Truncation: when the normalized text needs more than \<open>rows * 10\<close> cells, the grid
  still has exactly \<open>rows * 10\<close> cells, and they are the first \<open>rows * 10\<close> cells of the walk
  that is never cut (any cap of at least \<open>cellCount\<close>, under which all \<open>cellCount\<close> cells are
  written); the loop stops with the read cursor still inside the text, and the rest of the
  text is dropped.
\<close>

theorem truncation:
  assumes "rows * GRID_COLS < cellCount (cleanText text)"
  shows "length (GridNotebook text rows) = rows * GRID_COLS \<and>
    (\<forall>maxChars \<ge> cellCount (cleanText text).
       length (emittedCells (cleanText text) maxChars) = cellCount (cleanText text) \<and>
       GridNotebook text rows = take (rows * GRID_COLS) (emittedCells (cleanText text) maxChars)) \<and>
    fst (gridLoop (cleanText text) (rows * GRID_COLS) (0, [])) < length (cleanText text)"
proof -
  let ?clean = "cleanText text" and ?M = "rows * GRID_COLS"
  have len: "length (emittedCells ?clean ?M) = ?M"
    using assms by (simp add: emittedCells_length)
  then have grid: "GridNotebook text rows = emittedCells ?clean ?M"
    by (simp add: GridNotebook_split)
  have "length (emittedCells ?clean M') = cellCount ?clean \<and>
      GridNotebook text rows = take ?M (emittedCells ?clean M')" if "cellCount ?clean \<le> M'" for M'
    using emittedCells_take [of ?M M' ?clean] grid that assms by (simp add: emittedCells_length)
  moreover have "fst (gridLoop ?clean ?M (0, [])) < length ?clean"
  proof (rule ccontr)
    let ?s = "gridLoop ?clean ?M (0, [])"
    assume "\<not> fst ?s < length ?clean"
    then have "countLoop ?clean (fst ?s, length (snd ?s)) = (fst ?s, length (snd ?s))"
      by (simp add: countLoop.simps [of ?clean "(fst ?s, length (snd ?s))"])
    moreover have "countLoop ?clean (fst ?s, length (snd ?s)) = countLoop ?clean (0, 0)"
      using gridLoop_count [of ?clean ?M "(0, [])"] by simp
    ultimately have "snd (countLoop ?clean (0, 0)) = length (snd ?s)"
      by (metis snd_conv)
    then have "cellCount ?clean = length (emittedCells ?clean ?M)"
      by (simp add: cellCount_def emittedCells_def)
    with len assms show False by simp
  qed
  ultimately show ?thesis by (simp add: GridNotebook_length)
qed

theorem truncation_witness:
  "5 * GRID_COLS < cellCount (cleanText (ascii ''the quick brown fox jumps over the lazy dog again and again'')) \<and>
   length (GridNotebook (ascii ''the quick brown fox jumps over the lazy dog again and again'') 5) = 50 \<and>
   length (emittedCells (cleanText (ascii ''the quick brown fox jumps over the lazy dog again and again'')) 70) = 58 \<and>
   GridNotebook (ascii ''the quick brown fox jumps over the lazy dog again and again'') 5 =
     take 50 (emittedCells (cleanText (ascii ''the quick brown fox jumps over the lazy dog again and again'')) 70) \<and>
   fst (gridLoop (cleanText (ascii ''the quick brown fox jumps over the lazy dog again and again'')) 50 (0, []))
     < length (cleanText (ascii ''the quick brown fox jumps over the lazy dog again and again''))"
proof -
  have n: "cellCount (cleanText (ascii ''the quick brown fox jumps over the lazy dog again and again'')) = 58"
    by code_simp
  then have h: "5 * GRID_COLS
      < cellCount (cleanText (ascii ''the quick brown fox jumps over the lazy dog again and again''))"
    by (simp add: GRID_COLS_def)
  from truncation [OF h] h show ?thesis
    unfolding n by (auto simp: GRID_COLS_def)
qed

end
